theory Spec2Isabelle
  imports Complex_Main
begin

section \<open>Study planner: the scheduling core of \<^verbatim>\<open>study_planner.py\<close>\<close>

text \<open>
  The embedding follows the Python source function by function.

  \<^item> A Python \<^verbatim>\<open>dict\<close> keeps its keys in insertion order, and \<^verbatim>\<open>distribute_time\<close>
    walks them in that order, so a dict is an association list; reading a key is
    \<open>map_of\<close>, writing a key is \<open>dict_set\<close>. The keys of a dict are distinct; no
    theorem below needs that as a hypothesis.
  \<^item> Python's \<^verbatim>\<open>int\<close> is unbounded: \<open>int\<close>.
  \<^item> Priorities and weights are IEEE 754 binary64 numbers: type \<open>double\<close>, with the
    results of the operations rounded to nearest, ties to even.
  \<^item> A \<^verbatim>\<open>while\<close> loop that may run forever is a \<^theory_text>\<open>partial_function\<close> in the
    option monad: \<open>None\<close> is "does not return".
  \<^item> An exception is a value of type \<open>error\<close>; a function that can raise returns
    \<open>error + 'a\<close>, with \<open>Inl\<close> for the exception.
\<close>

subsection \<open>Dictionaries and exceptions\<close>

datatype error =
  KeyError string | ZeroDivisionError | OverflowError | ValueError
| OSError | PermissionError | JSONDecodeError

type_synonym 'v dict = "(string \<times> 'v) list"

text \<open>\<^verbatim>\<open>d[k] = v\<close>: an existing key keeps its position, a new key goes to the end.\<close>

fun dict_set :: "string \<Rightarrow> 'v \<Rightarrow> 'v dict \<Rightarrow> 'v dict" where
  "dict_set k v [] = [(k, v)]"
| "dict_set k v (p # ps) = (if fst p = k then (k, v) # ps else p # dict_set k v ps)"

text \<open>\<^verbatim>\<open>sum(d.values())\<close> on integers\<close>

definition sum_values :: "int dict \<Rightarrow> int" where
  "sum_values d = sum_list (map snd d)"

subsection \<open>Floating point\<close>

text \<open>
  A Python \<^verbatim>\<open>float\<close> and a numpy \<^verbatim>\<open>float64\<close> are IEEE 754 binary64 numbers. A finite
  one is given by its value, a rational \<open>m * 2^q\<close> with \<open>\<bar>m\<bar> < 2^53\<close> and
  \<open>- 1074 \<le> q \<le> 971\<close>. The two zeros are one value here: the source compares, multiplies
  and truncates, which does not tell them apart, and never divides by a zero.
\<close>

datatype double = Finite rat | PosInf | NegInf | NaN

text \<open>\<open>bit_length n\<close> is Python's \<^verbatim>\<open>n.bit_length()\<close> for \<open>n \<ge> 0\<close>.\<close>

function bit_length :: "int \<Rightarrow> int" where
  "bit_length n = (if n \<le> 0 then 0 else 1 + bit_length (n div 2))"
  by pat_completeness auto
termination
  by (relation "measure nat") auto

declare bit_length.simps [simp del]

definition pow2 :: "int \<Rightarrow> rat" where
  "pow2 k = (if 0 \<le> k then 2 ^ nat k else 1 / 2 ^ nat (- k))"

text \<open>For \<open>x > 0\<close>, \<open>floor_log2 x\<close> is the \<open>e\<close> with \<open>2^e \<le> x < 2^(e+1)\<close>.\<close>

definition floor_log2 :: "rat \<Rightarrow> int" where
  "floor_log2 x =
     (let (p, q) = quotient_of x;
          d = bit_length p - bit_length q
      in if pow2 d \<le> x then d else d - 1)"

definition round_half_even :: "rat \<Rightarrow> int" where
  "round_half_even x =
     (let f = \<lfloor>x\<rfloor>; r = x - of_int f
      in if r < 1 / 2 then f else if 1 / 2 < r then f + 1 else if even f then f else f + 1)"

text \<open>
  The double nearest to a rational: 53 significant bits, or a multiple of \<open>2^(- 1074)\<close>
  for the subnormal numbers, and an infinity when the rounded magnitude reaches \<open>2^1024\<close>.
\<close>

definition round_double :: "rat \<Rightarrow> double" where
  "round_double x =
     (if x = 0 then Finite 0
      else
        (let a = \<bar>x\<bar>;
             e = floor_log2 a;
             q = max (e - 52) (- 1074);
             y = of_int (round_half_even (a / pow2 q)) * pow2 q
         in if 1024 \<le> floor_log2 y then (if 0 < x then PosInf else NegInf)
            else Finite (if 0 < x then y else - y)))"

fun fadd :: "double \<Rightarrow> double \<Rightarrow> double" where
  "fadd (Finite x) (Finite y) = round_double (x + y)"
| "fadd NaN b = NaN"
| "fadd a NaN = NaN"
| "fadd PosInf NegInf = NaN"
| "fadd NegInf PosInf = NaN"
| "fadd PosInf b = PosInf"
| "fadd NegInf b = NegInf"
| "fadd a PosInf = PosInf"
| "fadd a NegInf = NegInf"

fun fmul :: "double \<Rightarrow> double \<Rightarrow> double" where
  "fmul (Finite x) (Finite y) = round_double (x * y)"
| "fmul NaN b = NaN"
| "fmul a NaN = NaN"
| "fmul (Finite x) PosInf = (if x = 0 then NaN else if 0 < x then PosInf else NegInf)"
| "fmul (Finite x) NegInf = (if x = 0 then NaN else if 0 < x then NegInf else PosInf)"
| "fmul PosInf (Finite y) = (if y = 0 then NaN else if 0 < y then PosInf else NegInf)"
| "fmul NegInf (Finite y) = (if y = 0 then NaN else if 0 < y then NegInf else PosInf)"
| "fmul PosInf PosInf = PosInf"
| "fmul PosInf NegInf = NegInf"
| "fmul NegInf PosInf = NegInf"
| "fmul NegInf NegInf = PosInf"

text \<open>
  Division as numpy does it, without an exception. With one zero in the model the
  quotient by zero is the one by \<open>+0.0\<close>; the source does not reach it (line 47 runs when
  the sum is not zero, and line 46 divides by a length that is not zero).
\<close>

fun fdiv :: "double \<Rightarrow> double \<Rightarrow> double" where
  "fdiv (Finite x) (Finite y) =
     (if y = 0 then (if x = 0 then NaN else if 0 < x then PosInf else NegInf)
      else round_double (x / y))"
| "fdiv NaN b = NaN"
| "fdiv a NaN = NaN"
| "fdiv (Finite x) PosInf = Finite 0"
| "fdiv (Finite x) NegInf = Finite 0"
| "fdiv PosInf (Finite y) = (if 0 \<le> y then PosInf else NegInf)"
| "fdiv NegInf (Finite y) = (if 0 \<le> y then NegInf else PosInf)"
| "fdiv PosInf b = NaN"
| "fdiv NegInf b = NaN"

text \<open>
  \<^verbatim>\<open>float(n)\<close> for an integer, also where Python converts an \<^verbatim>\<open>int\<close> operand of a float
  operation: the nearest double, \<^verbatim>\<open>OverflowError\<close> when that is infinite.
\<close>

definition int_to_double :: "int \<Rightarrow> error + double" where
  "int_to_double n =
     (case round_double (of_int n) of
        Finite x \<Rightarrow> Inr (Finite x)
      | PosInf \<Rightarrow> Inl OverflowError
      | NegInf \<Rightarrow> Inl OverflowError
      | NaN \<Rightarrow> Inl OverflowError)"

text \<open>
  \<^verbatim>\<open>int(x)\<close> on a float truncates towards zero; it raises \<^verbatim>\<open>OverflowError\<close> for an
  infinity and \<^verbatim>\<open>ValueError\<close> for a NaN.
\<close>

definition py_int :: "double \<Rightarrow> error + int" where
  "py_int d =
     (case d of
        Finite x \<Rightarrow> Inr (if 0 \<le> x then \<lfloor>x\<rfloor> else \<lceil>x\<rceil>)
      | PosInf \<Rightarrow> Inl OverflowError
      | NegInf \<Rightarrow> Inl OverflowError
      | NaN \<Rightarrow> Inl ValueError)"

text \<open>
  The elements of an array added from left to right, starting from zero. This is the
  order in which numpy adds an array of fewer than eight elements; it is used for the
  concrete examples only, which have three or four.
\<close>

definition seq_sum :: "double list \<Rightarrow> double" where
  "seq_sum xs = foldl fadd (Finite 0) xs"

subsection \<open>\<^verbatim>\<open>normalize_weights\<close> (source lines 43-48)\<close>

text \<open>
  \<open>np_sum\<close> stands for \<^verbatim>\<open>arr.sum()\<close>: the order in which numpy adds the elements of a
  longer array is numpy's own, so the sum is a parameter. \<^verbatim>\<open>arr.sum() == 0\<close> holds for
  a zero, and for no infinity or NaN. The values of \<open>priorities\<close> are doubles, as the
  annotation of the source says; the integers of the example convert exactly.
\<close>

definition normalize_weights :: "(double list \<Rightarrow> double) \<Rightarrow> double dict \<Rightarrow> double dict" where
  "normalize_weights np_sum priorities =
     (let arr = map snd priorities in
      if np_sum arr = Finite 0
      then map (\<lambda>k. (k, fdiv (Finite 1) (round_double (of_nat (length priorities)))))
             (map fst priorities)
      else zip (map fst priorities) (map (\<lambda>v. fdiv v (np_sum arr)) arr))"

subsection \<open>\<^verbatim>\<open>distribute_time\<close> (source lines 50-70)\<close>

text \<open>
  Line 53, \<^verbatim>\<open>{k: int(total_minutes * w) for k, w in weights.items()}\<close>: for each item
  in turn the integer is converted to a double, multiplied, and the product truncated;
  the first exception ends the comprehension.
\<close>

definition int_times_float :: "int \<Rightarrow> double \<Rightarrow> error + double" where
  "int_times_float n w = (case int_to_double n of Inl e \<Rightarrow> Inl e | Inr d \<Rightarrow> Inr (fmul d w))"

fun initial_raw :: "int \<Rightarrow> double dict \<Rightarrow> error + int dict" where
  "initial_raw total_minutes [] = Inr []"
| "initial_raw total_minutes ((k, w) # ws) =
     (case int_times_float total_minutes w of
        Inl e \<Rightarrow> Inl e
      | Inr x \<Rightarrow>
          (case py_int x of
             Inl e \<Rightarrow> Inl e
           | Inr v \<Rightarrow>
               (case initial_raw total_minutes ws of
                  Inl e \<Rightarrow> Inl e
                | Inr raw \<Rightarrow> Inr ((k, v) # raw))))"

text \<open>
  The reconciliation loop of lines 60-69. The state is \<open>raw\<close>, \<open>diff\<close> and \<open>i\<close>;
  \<open>keys\<close> and \<open>min_block\<close> do not change.
\<close>

partial_function (option) reconcile ::
  "string list \<Rightarrow> int \<Rightarrow> int dict \<Rightarrow> int \<Rightarrow> nat \<Rightarrow> (error + int dict) option"
where
  "reconcile keys min_block raw diff i =
     (if diff \<noteq> 0 \<and> keys \<noteq> [] then
        (let k = keys ! (i mod length keys) in
         case map_of raw k of
           None \<Rightarrow> Some (Inl (KeyError k))
         | Some v \<Rightarrow>
             if diff > 0 then
               reconcile keys min_block (dict_set k (v + 1) raw) (diff - 1) (i + 1)
             else if v > min_block then
               reconcile keys min_block (dict_set k (v - 1) raw) (diff + 1) (i + 1)
             else
               reconcile keys min_block raw diff (i + 1))
      else Some (Inr raw))"

declare reconcile.simps [code]

definition distribute_time :: "int \<Rightarrow> double dict \<Rightarrow> int \<Rightarrow> (error + int dict) option" where
  "distribute_time total_minutes weights min_block =
     (if total_minutes \<le> 0 then Some (Inr (map (\<lambda>k. (k, 0)) (map fst weights)))
      else
        (case initial_raw total_minutes weights of
           Inl e \<Rightarrow> Some (Inl e)
         | Inr raw0 \<Rightarrow>
             (let raw = map (\<lambda>(k, v). (k, if v = 0 \<and> total_minutes \<ge> min_block then min_block else v)) raw0;
                  diff = total_minutes - sum_values raw;
                  keys = map fst weights
              in reconcile keys min_block raw diff 0)))"

subsection \<open>\<^verbatim>\<open>split_into_sessions\<close> (source lines 72-86)\<close>

text \<open>The loop of lines 75-85; the state is \<open>plan\<close> and \<open>remaining\<close>.\<close>

partial_function (option) split_loop ::
  "int \<Rightarrow> int \<Rightarrow> (int \<times> string) list \<Rightarrow> int \<Rightarrow> (int \<times> string) list option"
where
  "split_loop focus_len short_break plan remaining =
     (if remaining > 0 then
        (if remaining \<le> focus_len then
           split_loop focus_len short_break (plan @ [(remaining, ''study'')]) 0
         else
           (let plan1 = plan @ [(focus_len, ''study'')];
                remaining1 = remaining - focus_len
            in if remaining1 > 0 then
                 (let b = min short_break remaining1
                  in split_loop focus_len short_break (plan1 @ [(b, ''break'')]) (remaining1 - b))
               else split_loop focus_len short_break plan1 remaining1))
      else Some plan)"

declare split_loop.simps [code]

definition split_into_sessions :: "int \<Rightarrow> int \<Rightarrow> int \<Rightarrow> (int \<times> string) list option" where
  "split_into_sessions minutes focus_len short_break = split_loop focus_len short_break [] minutes"

subsection \<open>\<^verbatim>\<open>build_schedule\<close> (source lines 88-126)\<close>

text \<open>
  A \<^verbatim>\<open>datetime\<close> is the number of whole minutes since 0001-01-01 00:00, the smallest
  datetime; the seconds never reach the output, which is printed with \<^verbatim>\<open>%H:%M\<close>. The
  largest datetime is in the year 9999, whose last day has ordinal 3652059:
  \<^verbatim>\<open>cur + timedelta(minutes=dur)\<close> raises \<^verbatim>\<open>OverflowError\<close> outside that range.
\<close>

definition datetime_max :: int where
  "datetime_max = 3652059 * 1440"

definition add_minutes :: "int \<Rightarrow> int \<Rightarrow> error + int" where
  "add_minutes cur dur =
     (if 0 \<le> cur + dur \<and> cur + dur < datetime_max then Inr (cur + dur) else Inl OverflowError)"

definition two_digits :: "int \<Rightarrow> string" where
  "two_digits n = [''0123456789'' ! nat (n div 10), ''0123456789'' ! nat (n mod 10)]"

text \<open>\<^verbatim>\<open>t.strftime("%H:%M")\<close>\<close>

definition strftime_HM :: "int \<Rightarrow> string" where
  "strftime_HM t = two_digits (t div 60 mod 24) @ '':'' @ two_digits (t mod 60)"

text \<open>
  One row of the data frame: the keys \<^verbatim>\<open>start\<close>, \<^verbatim>\<open>end\<close>, \<^verbatim>\<open>duration_min\<close>,
  \<^verbatim>\<open>type\<close> and \<^verbatim>\<open>subject\<close> of the source.
\<close>

record row =
  row_start :: string
  row_end :: string
  duration_min :: int
  row_type :: string
  subject :: string

text \<open>
  The inner loop (lines 104-125) over the sessions of one subject. The state is
  \<open>(rows, cur, study_block_counter)\<close>. Python's \<^verbatim>\<open>%\<close> on integers is \<open>mod\<close> on
  \<open>int\<close> (the result has the sign of the divisor), and raises for a zero divisor.
\<close>

fun session_loop ::
  "int \<Rightarrow> int \<Rightarrow> string \<Rightarrow> (int \<times> string) list \<Rightarrow> row list \<times> int \<times> int \<Rightarrow>
     error + row list \<times> int \<times> int"
where
  "session_loop long_break_every long_break_len subj [] st = Inr st"
| "session_loop long_break_every long_break_len subj ((dur, kind) # sessions)
       (rows, cur, study_block_counter) =
     (case add_minutes cur dur of
        Inl e \<Rightarrow> Inl e
      | Inr end_t \<Rightarrow>
          (let rows1 = rows @ [\<lparr>row_start = strftime_HM cur, row_end = strftime_HM end_t,
                                duration_min = dur, row_type = kind,
                                subject = (if kind = ''study'' then subj else '''')\<rparr>];
               cur1 = end_t
           in if kind = ''study'' then
                (let counter1 = study_block_counter + 1
                 in if long_break_every = 0 then Inl ZeroDivisionError
                    else if counter1 mod long_break_every = 0 then
                      (case add_minutes cur1 long_break_len of
                         Inl e \<Rightarrow> Inl e
                       | Inr l_end \<Rightarrow>
                           session_loop long_break_every long_break_len subj sessions
                             (rows1 @ [\<lparr>row_start = strftime_HM cur1, row_end = strftime_HM l_end,
                                        duration_min = long_break_len, row_type = ''break'',
                                        subject = ''''\<rparr>],
                              l_end, counter1))
                    else session_loop long_break_every long_break_len subj sessions
                           (rows1, cur1, counter1))
              else session_loop long_break_every long_break_len subj sessions
                     (rows1, cur1, study_block_counter)))"

text \<open>
  The outer loop (lines 102-125) over the subjects. \<^verbatim>\<open>per_subject[subj]\<close> raises
  \<^verbatim>\<open>KeyError\<close> for a subject that has no priority.
\<close>

fun subject_loop ::
  "int dict \<Rightarrow> int \<Rightarrow> int \<Rightarrow> int \<Rightarrow> int \<Rightarrow> string list \<Rightarrow> row list \<times> int \<times> int \<Rightarrow>
     (error + row list \<times> int \<times> int) option"
where
  "subject_loop per_subject focus_len short_break long_break_every long_break_len [] st =
     Some (Inr st)"
| "subject_loop per_subject focus_len short_break long_break_every long_break_len
       (subj # subjects) st =
     (case map_of per_subject subj of
        None \<Rightarrow> Some (Inl (KeyError subj))
      | Some minutes \<Rightarrow>
          (case split_into_sessions minutes focus_len short_break of
             None \<Rightarrow> None
           | Some sessions \<Rightarrow>
               (case session_loop long_break_every long_break_len subj sessions st of
                  Inl e \<Rightarrow> Some (Inl e)
                | Inr st' \<Rightarrow>
                    subject_loop per_subject focus_len short_break long_break_every
                      long_break_len subjects st')))"

text \<open>
  \<open>start_time = None\<close> is the default argument; \<open>now\<close> stands for
  \<^verbatim>\<open>datetime.now().replace(second=0, microsecond=0)\<close>. The data frame is the list of its
  rows.
\<close>

definition build_schedule ::
  "(double list \<Rightarrow> double) \<Rightarrow> string list \<Rightarrow> double dict \<Rightarrow> int \<Rightarrow> int option \<Rightarrow> int \<Rightarrow> int \<Rightarrow> int \<Rightarrow> int \<Rightarrow> int \<Rightarrow>
     (error + row list) option"
where
  "build_schedule np_sum subjects priorities total_minutes start_time now focus_len short_break
       long_break_every long_break_len =
     (let start = (case start_time of None \<Rightarrow> now | Some t \<Rightarrow> t);
          weights = normalize_weights np_sum priorities
      in case distribute_time total_minutes weights (min 25 total_minutes) of
           None \<Rightarrow> None
         | Some (Inl e) \<Rightarrow> Some (Inl e)
         | Some (Inr per_subject) \<Rightarrow>
             (case subject_loop per_subject focus_len short_break long_break_every
                     long_break_len subjects ([], start, 0) of
                None \<Rightarrow> None
              | Some (Inl e) \<Rightarrow> Some (Inl e)
              | Some (Inr (rows, cur, study_block_counter)) \<Rightarrow> Some (Inr rows)))"

subsection \<open>\<^verbatim>\<open>load_memory\<close> (source lines 21-27)\<close>

text \<open>
  What is at \<^verbatim>\<open>MEMORY_PATH\<close>: no file, a file that cannot be read as UTF-8 text, or a
  file with a text. \<open>searchable\<close> tells whether \<^verbatim>\<open>os.stat\<close> can look the path up: when it
  fails with an error other than \<^verbatim>\<open>ENOENT\<close>, \<^verbatim>\<open>ENOTDIR\<close>, \<^verbatim>\<open>EBADF\<close> and \<^verbatim>\<open>ELOOP\<close>, for
  instance with \<^verbatim>\<open>EACCES\<close> in a directory without search permission, \<^verbatim>\<open>Path.exists\<close>
  raises that error (Python 3.12 and earlier). \<^verbatim>\<open>json.loads\<close> is a parameter: a function
  from the text to a JSON value or an exception.
\<close>

datatype json =
  JNull | JBool bool | JNumber rat | JString string | JArray "json list"
| JObject "(string \<times> json) list"

datatype file_state = Absent | Unreadable | Text string

record memory_path =
  searchable :: bool
  content :: file_state

definition path_exists :: "memory_path \<Rightarrow> error + bool" where
  "path_exists p = (if searchable p then Inr (content p \<noteq> Absent) else Inl PermissionError)"

definition read_text :: "memory_path \<Rightarrow> error + string" where
  "read_text p =
     (if searchable p then
        (case content p of Text s \<Rightarrow> Inr s | Unreadable \<Rightarrow> Inl OSError | Absent \<Rightarrow> Inl OSError)
      else Inl PermissionError)"

text \<open>
  The call of \<^verbatim>\<open>exists\<close> on line 22 is outside the \<^verbatim>\<open>try\<close>: what it raises leaves
  \<open>load_memory\<close>. \<^verbatim>\<open>except Exception: pass\<close> catches what \<^verbatim>\<open>read_text\<close> and
  \<^verbatim>\<open>json.loads\<close> raise; control then reaches the last line.
\<close>

definition load_memory :: "(string \<Rightarrow> error + json) \<Rightarrow> memory_path \<Rightarrow> error + json" where
  "load_memory json_loads p =
     (let fallback = Inr (JObject [(''last_plan'', JArray [])])
      in case path_exists p of
           Inl e \<Rightarrow> Inl e
         | Inr True \<Rightarrow>
             (case read_text p of
                Inl e \<Rightarrow> fallback
              | Inr txt \<Rightarrow> (case json_loads txt of Inl e \<Rightarrow> fallback | Inr mem \<Rightarrow> Inr mem))
         | Inr False \<Rightarrow> fallback)"

subsection \<open>Predicates on allocations and plans\<close>

definition lower_bounded :: "int \<Rightarrow> int dict \<Rightarrow> bool" where
  "lower_bounded lo d = list_all (\<lambda>p. lo \<le> snd p) d"

text \<open>The number of study blocks in a plan, and the minutes they add up to.\<close>

definition is_study :: "row \<Rightarrow> bool" where
  "is_study r = (row_type r = ''study'')"

definition study_count :: "row list \<Rightarrow> nat" where
  "study_count rows = length (filter is_study rows)"

definition study_minutes :: "row list \<Rightarrow> int" where
  "study_minutes rows = sum_list (map duration_min (filter is_study rows))"

text \<open>
  \<open>timed_chain t rows t'\<close>: the first row starts at the instant \<open>t\<close>, every row ends
  \<open>duration_min\<close> minutes after it starts, the next row starts at that instant, and the
  last row ends at \<open>t'\<close>; the rows show these instants as \<^verbatim>\<open>%H:%M\<close>.
\<close>

fun timed_chain :: "int \<Rightarrow> row list \<Rightarrow> int \<Rightarrow> bool" where
  "timed_chain t [] t' = (t = t')"
| "timed_chain t (r # rs) t' =
     (row_start r = strftime_HM t \<and> row_end r = strftime_HM (t + duration_min r) \<and>
      timed_chain (t + duration_min r) rs t')"

text \<open>
  \<open>long_breaks_ok every len n rows\<close>: with \<open>n\<close> study blocks counted before \<open>rows\<close>, every
  study block of \<open>rows\<close> whose count is a multiple of \<open>every\<close> has a break block of
  duration \<open>len\<close> right after it. Only study blocks are counted.
\<close>

fun followed_by_long_break :: "int \<Rightarrow> row list \<Rightarrow> bool" where
  "followed_by_long_break len [] = False"
| "followed_by_long_break len (r # rs) =
     (row_type r = ''break'' \<and> duration_min r = len \<and> subject r = '''')"

fun long_breaks_ok :: "int \<Rightarrow> int \<Rightarrow> int \<Rightarrow> row list \<Rightarrow> bool" where
  "long_breaks_ok every len n [] = True"
| "long_breaks_ok every len n (r # rs) =
     (if is_study r then
        (if every dvd n + 1 then followed_by_long_break len rs else True) \<and>
        long_breaks_ok every len (n + 1) rs
      else long_breaks_ok every len n rs)"

text \<open>A weight that is not negative: a finite double \<open>\<ge> 0\<close> or the positive infinity.\<close>

definition nonneg_double :: "double \<Rightarrow> bool" where
  "nonneg_double d = (case d of Finite x \<Rightarrow> 0 \<le> x | PosInf \<Rightarrow> True | NegInf \<Rightarrow> False | NaN \<Rightarrow> False)"

section \<open>Properties\<close>

subsection \<open>Floating point\<close>

text \<open>\<open>floor_log2\<close> is the exponent, and rounding moves a number by half a unit at most.\<close>

lemma bit_length_bounds:
  "0 < n \<Longrightarrow> 1 \<le> bit_length n \<and> 2 ^ nat (bit_length n - 1) \<le> n \<and> n < 2 ^ nat (bit_length n)"
proof (induction n rule: bit_length.induct)
  case (1 n)
  show ?case
  proof (cases "n div 2 = 0")
    case True
    with "1.prems" have n: "n = 1" by presburger
    have "bit_length 1 = 1" by (simp add: bit_length.simps [of 1] bit_length.simps [of 0])
    with n show ?thesis by simp
  next
    case False
    with "1.prems" have m: "0 < n div 2" by presburger
    with "1.IH" "1.prems" have IH: "1 \<le> bit_length (n div 2)"
      "2 ^ nat (bit_length (n div 2) - 1) \<le> n div 2" "n div 2 < 2 ^ nat (bit_length (n div 2))"
      by simp_all
    define b where "b = nat (bit_length (n div 2) - 1)"
    have bl: "bit_length (n div 2) = int b + 1" using IH(1) by (simp add: b_def)
    have n: "bit_length n = int b + 2" using "1.prems" bl by (simp add: bit_length.simps [of n])
    have lo: "(2::int) ^ b \<le> n div 2" using IH(2) by (simp add: b_def)
    have hi: "n div 2 < (2::int) ^ (b + 1)" using IH(3) bl by (simp add: nat_add_distrib)
    have d2: "2 * (n div 2) \<le> n" "n \<le> 2 * (n div 2) + 1" by presburger+
    have "(2::int) ^ (b + 1) \<le> n" using lo d2(1) by simp
    moreover have "n < (2::int) ^ (b + 2)" using hi d2(2) by simp
    ultimately show ?thesis using n by (simp add: nat_add_distrib)
  qed
qed

lemma pow2_powi: "pow2 k = 2 powi k"
  by (simp add: pow2_def power_int_def field_simps)

lemma floor_log2_bounds:
  assumes "0 < x"
  shows "pow2 (floor_log2 x) \<le> x \<and> x < pow2 (floor_log2 x + 1)"
proof -
  obtain p q where pq: "quotient_of x = (p, q)" by (cases "quotient_of x")
  then have q: "0 < q" by (rule quotient_of_denom_pos)
  have x: "x = of_int p / of_int q" using pq by (rule quotient_of_div)
  with assms q have p: "0 < p" by (simp add: zero_less_divide_iff)
  define bp where "bp = bit_length p"
  define bq where "bq = bit_length q"
  from bit_length_bounds [OF p] have P: "1 \<le> bp" "2 ^ nat (bp - 1) \<le> p" "p < 2 ^ nat bp"
    by (simp_all add: bp_def)
  from bit_length_bounds [OF q] have Q: "1 \<le> bq" "2 ^ nat (bq - 1) \<le> q" "q < 2 ^ nat bq"
    by (simp_all add: bq_def)
  have Pr: "(2::rat) powi (bp - 1) \<le> of_int p" "of_int p < (2::rat) powi bp"
  proof -
    have "(of_int (2 ^ nat (bp - 1)) :: rat) \<le> of_int p" using P(2) by (simp only: of_int_le_iff)
    then show "(2::rat) powi (bp - 1) \<le> of_int p" using P(1) by (simp add: power_int_def)
    have "(of_int p :: rat) < of_int (2 ^ nat bp)" using P(3) by (simp only: of_int_less_iff)
    then show "of_int p < (2::rat) powi bp" using P(1) by (simp add: power_int_def)
  qed
  have Qr: "(2::rat) powi (bq - 1) \<le> of_int q" "of_int q < (2::rat) powi bq"
  proof -
    have "(of_int (2 ^ nat (bq - 1)) :: rat) \<le> of_int q" using Q(2) by (simp only: of_int_le_iff)
    then show "(2::rat) powi (bq - 1) \<le> of_int q" using Q(1) by (simp add: power_int_def)
    have "(of_int q :: rat) < of_int (2 ^ nat bq)" using Q(3) by (simp only: of_int_less_iff)
    then show "of_int q < (2::rat) powi bq" using Q(1) by (simp add: power_int_def)
  qed
  define d where "d = bp - bq"
  have qpos: "(0::rat) < of_int q" using q by simp
  have lo: "(2::rat) powi (d - 1) \<le> x"
  proof -
    have "(2::rat) powi (d - 1) = 2 powi (bp - 1) / 2 powi bq"
      by (simp add: d_def power_int_diff)
    also have "\<dots> \<le> of_int p / 2 powi bq"
      using Pr(1) by (simp add: divide_right_mono)
    also have "\<dots> \<le> of_int p / of_int q"
      using Qr(2) qpos p by (intro divide_left_mono) simp_all
    finally show ?thesis by (simp add: x)
  qed
  have hi: "x < (2::rat) powi (d + 1)"
  proof -
    have "x = of_int p / of_int q" by (rule x)
    also have "\<dots> < 2 powi bp / of_int q"
      using Pr(2) qpos by (simp add: divide_strict_right_mono)
    also have "\<dots> \<le> 2 powi bp / 2 powi (bq - 1)"
      using Qr(1) qpos by (intro divide_left_mono) simp_all
    also have "\<dots> = (2::rat) powi (bp - (bq - 1))"
      by (rule power_int_diff [symmetric]) simp
    also have "bp - (bq - 1) = d + 1"
      by (simp add: d_def)
    finally show ?thesis .
  qed
  have fl: "floor_log2 x = (if pow2 d \<le> x then d else d - 1)"
    by (simp add: floor_log2_def pq d_def bp_def bq_def)
  show ?thesis
  proof (cases "pow2 d \<le> x")
    case True
    with fl hi show ?thesis by (simp add: pow2_powi)
  next
    case False
    with fl lo show ?thesis by (simp add: pow2_powi)
  qed
qed

lemma round_half_even_error: "\<bar>of_int (round_half_even x) - x\<bar> \<le> 1 / 2"
proof -
  have "of_int \<lfloor>x\<rfloor> \<le> x" "x < of_int \<lfloor>x\<rfloor> + 1" by linarith+
  then show ?thesis by (auto simp: round_half_even_def Let_def)
qed

lemma pow2_pos: "0 < pow2 k"
  by (simp add: pow2_def)

lemma round_half_even_nonneg: "0 \<le> x \<Longrightarrow> 0 \<le> round_half_even x"
  by (auto simp: round_half_even_def Let_def)

lemma round_double_nonneg:
  assumes "0 \<le> x" and "round_double x = Finite z"
  shows "0 \<le> z"
proof (cases "x = 0")
  case True
  with assms(2) show ?thesis by (simp add: round_double_def)
next
  case False
  define q where "q = max (floor_log2 \<bar>x\<bar> - 52) (- 1074)"
  have "0 \<le> \<bar>x\<bar> / pow2 q" using pow2_pos [of q] by simp
  then have "0 \<le> round_half_even (\<bar>x\<bar> / pow2 q)" by (rule round_half_even_nonneg)
  then have "0 \<le> of_int (round_half_even (\<bar>x\<bar> / pow2 q)) * pow2 q"
    using pow2_pos [of q] by simp
  with assms False show ?thesis
    by (auto simp: round_double_def Let_def q_def split: if_splits)
qed

subsection \<open>Time distributor\<close>

lemma map_fst_dict_set: "map_of d k = Some v \<Longrightarrow> map fst (dict_set k v' d) = map fst d"
  by (induction d) (auto split: if_splits)

lemma sum_values_dict_set:
  "map_of d k = Some v \<Longrightarrow> sum_values (dict_set k v' d) = sum_values d - v + v'"
  by (induction d) (auto simp: sum_values_def split: if_splits)

lemma lower_bounded_dict_set:
  "lower_bounded lo d \<Longrightarrow> lo \<le> v \<Longrightarrow> lower_bounded lo (dict_set k v d)"
  by (induction d) (auto simp: lower_bounded_def)

lemma lower_bounded_lookup:
  "lower_bounded lo d \<Longrightarrow> map_of d k = Some v \<Longrightarrow> lo \<le> v"
  by (auto simp: lower_bounded_def list_all_iff dest!: map_of_SomeD)

lemma int_to_double_Inr: "int_to_double n = Inr d \<Longrightarrow> round_double (of_int n) = d \<and> (\<exists>y. d = Finite y)"
  by (cases "round_double (of_int n)") (auto simp: int_to_double_def)

lemma py_int_Inr: "py_int x = Inr v \<Longrightarrow> \<exists>z. x = Finite z \<and> v = (if 0 \<le> z then \<lfloor>z\<rfloor> else \<lceil>z\<rceil>)"
  by (cases x) (simp_all add: py_int_def)

lemma fmul_nonneg_Finite:
  "0 \<le> y \<Longrightarrow> nonneg_double w \<Longrightarrow> fmul (Finite y) w = Finite z \<Longrightarrow> 0 \<le> z"
proof (cases w)
  case (Finite u)
  assume "0 \<le> y" "nonneg_double w" "fmul (Finite y) w = Finite z"
  with Finite have "0 \<le> y * u" "round_double (y * u) = Finite z"
    by (simp_all add: nonneg_double_def)
  then show ?thesis by (rule round_double_nonneg)
qed (simp_all add: nonneg_double_def split: if_splits)

lemma int_times_float_nonneg:
  assumes "0 < n" and "nonneg_double w" and "int_times_float n w = Inr x" and "py_int x = Inr v"
  shows "0 \<le> v"
proof -
  from assms(3) obtain d where d: "int_to_double n = Inr d" and x: "x = fmul d w"
    by (cases "int_to_double n") (simp_all add: int_times_float_def)
  from int_to_double_Inr [OF d] obtain y where y: "round_double (of_int n) = Finite y" "d = Finite y"
    by auto
  have "(0::rat) \<le> of_int n" using assms(1) by simp
  then have y0: "0 \<le> y" using y(1) by (rule round_double_nonneg)
  from py_int_Inr [OF assms(4)] obtain z where z: "x = Finite z"
    and v: "v = (if 0 \<le> z then \<lfloor>z\<rfloor> else \<lceil>z\<rceil>)"
    by auto
  from x y(2) z have "fmul (Finite y) w = Finite z" by simp
  with y0 assms(2) have "0 \<le> z" by (rule fmul_nonneg_Finite)
  with v show ?thesis by simp
qed

lemma initial_raw_keys: "initial_raw t ws = Inr raw \<Longrightarrow> map fst raw = map fst ws"
  by (induction t ws arbitrary: raw rule: initial_raw.induct) (auto split: sum.splits)

lemma initial_raw_nonneg:
  "0 < t \<Longrightarrow> \<forall>p \<in> set ws. nonneg_double (snd p) \<Longrightarrow> initial_raw t ws = Inr raw \<Longrightarrow>
     lower_bounded 0 raw"
proof (induction t ws arbitrary: raw rule: initial_raw.induct)
  case (1 t)
  then show ?case by (simp add: lower_bounded_def)
next
  case (2 t k w ws)
  from "2.prems"(3) obtain x v raw' where
    x: "int_times_float t w = Inr x" and v: "py_int x = Inr v"
    and r: "initial_raw t ws = Inr raw'" and raw: "raw = (k, v) # raw'"
    by (auto split: sum.splits)
  from "2.prems"(1,2) x v have "0 \<le> v" by (intro int_times_float_nonneg [of t w x v]) simp_all
  moreover from "2.IH" [OF x v] "2.prems"(1,2) r have "lower_bounded 0 raw'" by simp
  ultimately show ?case using raw by (simp add: lower_bounded_def)
qed

lemma reconcile_returns:
  assumes "reconcile keys min_block raw diff i = Some y"
    and "set keys \<subseteq> fst ` set raw"
  shows "\<exists>r. y = Inr r \<and> map fst r = map fst raw \<and>
           (keys \<noteq> [] \<longrightarrow> sum_values r = sum_values raw + diff) \<and>
           (lower_bounded lo raw \<and> lo \<le> min_block \<longrightarrow> lower_bounded lo r)"
  using assms
proof (induction keys min_block raw diff i y
    rule: reconcile.raw_induct [rotated, consumes 1, case_names step])
  case (step reconcile keys min_block raw diff i y)
  show ?case
  proof (cases "diff \<noteq> 0 \<and> keys \<noteq> []")
    case False
    with "step.hyps" have "y = Inr raw" by simp
    with False show ?thesis by auto
  next
    case True
    define k where "k = keys ! (i mod length keys)"
    have "k \<in> set keys" using True by (simp add: k_def)
    with "step.prems" have "k \<in> fst ` set raw" by blast
    then obtain v where v: "map_of raw k = Some v"
      by (metis domD dom_map_of_conv_image_fst)
    have keys': "set keys \<subseteq> fst ` set (dict_set k v' raw)" for v'
      using "step.prems" map_fst_dict_set [OF v, of v'] by (metis set_map)
    consider (inc) "diff > 0" | (dec) "diff < 0" "v > min_block" | (skip) "diff < 0" "\<not> v > min_block"
      using True by linarith
    then show ?thesis
    proof cases
      case inc
      with True v "step.hyps" have "reconcile keys min_block (dict_set k (v + 1) raw) (diff - 1) (i + 1) = Some y"
        by (simp add: k_def Let_def)
      from "step.IH" [OF this keys'] obtain r where r: "y = Inr r"
        "map fst r = map fst (dict_set k (v + 1) raw)"
        "sum_values r = sum_values (dict_set k (v + 1) raw) + (diff - 1)"
        "lower_bounded lo (dict_set k (v + 1) raw) \<and> lo \<le> min_block \<longrightarrow> lower_bounded lo r"
        using True by blast
      have "lower_bounded lo raw \<Longrightarrow> lower_bounded lo (dict_set k (v + 1) raw)"
        using lower_bounded_lookup [OF _ v, of lo] by (intro lower_bounded_dict_set) auto
      with r show ?thesis
        by (auto simp: map_fst_dict_set [OF v] sum_values_dict_set [OF v])
    next
      case dec
      with True v "step.hyps" have "reconcile keys min_block (dict_set k (v - 1) raw) (diff + 1) (i + 1) = Some y"
        by (simp add: k_def Let_def)
      from "step.IH" [OF this keys'] obtain r where r: "y = Inr r"
        "map fst r = map fst (dict_set k (v - 1) raw)"
        "sum_values r = sum_values (dict_set k (v - 1) raw) + (diff + 1)"
        "lower_bounded lo (dict_set k (v - 1) raw) \<and> lo \<le> min_block \<longrightarrow> lower_bounded lo r"
        using True by blast
      have "lower_bounded lo raw \<Longrightarrow> lo \<le> min_block \<Longrightarrow> lower_bounded lo (dict_set k (v - 1) raw)"
        using dec(2) by (intro lower_bounded_dict_set) auto
      with r show ?thesis
        by (auto simp: map_fst_dict_set [OF v] sum_values_dict_set [OF v])
    next
      case skip
      with True v "step.hyps" have "reconcile keys min_block raw diff (i + 1) = Some y"
        by (simp add: k_def Let_def)
      from "step.IH" [OF this "step.prems"] show ?thesis .
    qed
  qed
qed

lemma reconcile_stuck:
  assumes "reconcile keys min_block raw diff i = Some y"
  shows "\<not> (diff < 0 \<and> keys \<noteq> [] \<and> set keys \<subseteq> fst ` set raw \<and>
            list_all (\<lambda>p. snd p \<le> min_block) raw)"
  using assms
proof (induction keys min_block raw diff i y
    rule: reconcile.raw_induct [rotated, consumes 1, case_names step])
  case (step reconcile keys min_block raw diff i y)
  show ?case
  proof
    assume inv: "diff < 0 \<and> keys \<noteq> [] \<and> set keys \<subseteq> fst ` set raw \<and>
      list_all (\<lambda>p. snd p \<le> min_block) raw"
    define k where "k = keys ! (i mod length keys)"
    have "k \<in> set keys" using inv by (simp add: k_def)
    with inv have "k \<in> fst ` set raw" by blast
    then obtain v where v: "map_of raw k = Some v"
      by (metis domD dom_map_of_conv_image_fst)
    then have "(k, v) \<in> set raw" by (rule map_of_SomeD)
    with inv have "v \<le> min_block" by (auto simp: list_all_iff)
    with inv v step.hyps have "reconcile keys min_block raw diff (i + 1) = Some y"
      by (simp add: k_def Let_def)
    from step.IH [OF this] inv show False by simp
  qed
qed

text \<open>
  C3, as stated: for every non-empty weight map and every \<open>total_minutes > 0\<close>, whenever
  \<open>distribute_time\<close> returns, every subject has a non-negative integer and the values sum
  to \<open>total_minutes\<close>. The weights \<open>- 0.5\<close> and \<open>1.5\<close>, which \<open>normalize_weights\<close> gives
  for the priorities \<open>- 1\<close> and 3, make a non-empty weight map, and with 180 minutes
  \<open>distribute_time\<close> returns \<open>- 90\<close> for the first subject.
\<close>

theorem distribute_time_negative_weight_counterexample:
  "[(''Math'', Finite (- 1 / 2)), (''Python'', Finite (3 / 2))] \<noteq> [] \<and> (0::int) < 180 \<and>
   distribute_time 180 [(''Math'', Finite (- 1 / 2)), (''Python'', Finite (3 / 2))] 25 =
     Some (Inr [(''Math'', - 90), (''Python'', 270)]) \<and>
   (- 90 :: int) < 0"
  by code_simp

text \<open>
  C3, amended: for every non-empty weight map and every \<open>total_minutes > 0\<close>, whenever
  \<open>distribute_time\<close> returns an allocation, it has the subjects of the weight map in
  their order, with integer values that sum to \<open>total_minutes\<close>; the values are
  non-negative when no weight is negative and the minimum block is not negative.
\<close>

theorem distribute_time_sums_to_total:
  assumes "weights \<noteq> []" and "0 < total_minutes"
    and "distribute_time total_minutes weights min_block = Some (Inr alloc)"
  shows "map fst alloc = map fst weights \<and> sum_values alloc = total_minutes \<and>
         ((\<forall>p \<in> set weights. nonneg_double (snd p)) \<and> 0 \<le> min_block \<longrightarrow>
            (\<forall>p \<in> set alloc. 0 \<le> snd p))"
proof -
  from assms(2,3) obtain raw0 where raw0: "initial_raw total_minutes weights = Inr raw0"
    by (cases "initial_raw total_minutes weights") (simp_all add: distribute_time_def)
  define raw where
    "raw = map (\<lambda>(k, v). (k, if v = 0 \<and> total_minutes \<ge> min_block then min_block else v)) raw0"
  have keys: "map fst raw = map fst weights"
    using initial_raw_keys [OF raw0] by (simp add: raw_def case_prod_unfold comp_def)
  have run: "reconcile (map fst weights) min_block raw (total_minutes - sum_values raw) 0 =
      Some (Inr alloc)"
    using assms(2,3) raw0 by (simp add: distribute_time_def Let_def raw_def)
  have sub: "set (map fst weights) \<subseteq> fst ` set raw"
    using keys by (metis set_map subset_refl)
  from reconcile_returns [OF run sub, of 0] assms(1)
  have r: "map fst alloc = map fst raw" "sum_values alloc = total_minutes"
    "lower_bounded 0 raw \<and> 0 \<le> min_block \<longrightarrow> lower_bounded 0 alloc"
    by auto
  have "lower_bounded 0 raw"
    if w: "\<forall>p \<in> set weights. nonneg_double (snd p)" and m: "0 \<le> min_block"
  proof -
    from initial_raw_nonneg [OF assms(2) w raw0] have "lower_bounded 0 raw0" .
    with m show ?thesis
      by (auto simp: lower_bounded_def list_all_iff raw_def)
  qed
  with r keys show ?thesis
    by (auto simp: lower_bounded_def list_all_iff)
qed

theorem distribute_time_sums_to_total_witness:
  "[(''Math'', Finite (1 / 2)), (''Python'', Finite (1 / 4)), (''AI'', Finite (1 / 4))] \<noteq> [] \<and>
   (0::int) < 101 \<and>
   distribute_time 101 [(''Math'', Finite (1 / 2)), (''Python'', Finite (1 / 4)), (''AI'', Finite (1 / 4))] 25 =
     Some (Inr [(''Math'', 51), (''Python'', 25), (''AI'', 25)]) \<and>
   list_all (\<lambda>p. nonneg_double (snd p))
     [(''Math'', Finite (1 / 2)), (''Python'', Finite (1 / 4)), (''AI'', Finite (1 / 4))] \<and>
   (0::int) \<le> 25 \<and>
   map fst [(''Math'', 51 :: int), (''Python'', 25), (''AI'', 25)] = [''Math'', ''Python'', ''AI''] \<and>
   sum_values [(''Math'', 51), (''Python'', 25), (''AI'', 25)] = 101 \<and>
   list_all (\<lambda>p. 0 \<le> snd p) [(''Math'', 51 :: int), (''Python'', 25), (''AI'', 25)]"
proof -
  have run: "distribute_time 101
      [(''Math'', Finite (1 / 2)), (''Python'', Finite (1 / 4)), (''AI'', Finite (1 / 4))] 25 =
     Some (Inr [(''Math'', 51), (''Python'', 25), (''AI'', 25)])"
    by code_simp
  from distribute_time_sums_to_total [OF _ _ run] show ?thesis
    using run by (simp add: sum_values_def nonneg_double_def)
qed

text \<open>
  C4. There is a non-empty weight map and a \<open>total_minutes > 0\<close> on which
  \<open>distribute_time\<close> does not return: with weights 1 and 0, a total of 25 and a minimum
  block of 25, the second subject is raised from 0 to 25, the sum is 50, and no allocation
  is above the minimum block, so the loop never changes \<open>diff\<close>.
\<close>

theorem distribute_time_never_returns:
  "[(''Math'', Finite 1), (''AI'', Finite 0)] \<noteq> [] \<and> (0::int) < 25 \<and>
   distribute_time 25 [(''Math'', Finite 1), (''AI'', Finite 0)] 25 = None"
proof -
  have raw0: "initial_raw 25 [(''Math'', Finite 1), (''AI'', Finite 0)] =
      Inr [(''Math'', 25), (''AI'', 0)]"
    by code_simp
  have "reconcile [''Math'', ''AI''] 25 [(''Math'', 25), (''AI'', 25)] (- 25) 0 = None"
  proof (cases "reconcile [''Math'', ''AI''] 25 [(''Math'', 25), (''AI'', 25)] (- 25) 0")
    case (Some y)
    from reconcile_stuck [OF this] show ?thesis by simp
  qed simp
  then show ?thesis
    by (simp add: distribute_time_def raw0 sum_values_def del: initial_raw.simps)
qed

text \<open>
  C10. For \<open>total_minutes > 0\<close> and the empty weight map \<open>distribute_time\<close> returns the
  empty allocation, whose sum is 0 and not \<open>total_minutes\<close>.
\<close>

theorem distribute_time_empty:
  "0 < total_minutes \<Longrightarrow>
     distribute_time total_minutes [] min_block = Some (Inr []) \<and> sum_values [] = 0 \<and>
     sum_values [] \<noteq> total_minutes"
  by (simp add: distribute_time_def sum_values_def reconcile.simps)

theorem distribute_time_empty_witness:
  "(0::int) < 180 \<and> distribute_time 180 [] 25 = Some (Inr []) \<and> sum_values [] = 0 \<and>
     sum_values [] \<noteq> (180::int)"
  using distribute_time_empty [of 180 25] by simp

subsection \<open>Session segmenter\<close>

lemma split_loop_total:
  assumes f: "0 < focus_len" and s: "0 < short_break"
  shows "0 \<le> remaining \<Longrightarrow>
    \<exists>ss. split_loop focus_len short_break plan remaining = Some (plan @ ss) \<and>
         sum_list (map fst ss) = remaining"
proof (induction "nat remaining" arbitrary: remaining plan rule: less_induct)
  case less
  show ?case
  proof (cases "remaining > 0")
    case False
    with less.prems have "remaining = 0" by simp
    then show ?thesis by (subst split_loop.simps) simp
  next
    case pos: True
    show ?thesis
    proof (cases "remaining \<le> focus_len")
      case True
      have "split_loop focus_len short_break (plan @ [(remaining, ''study'')]) 0 =
              Some (plan @ [(remaining, ''study'')])"
        by (subst split_loop.simps) simp
      with pos True show ?thesis by (subst split_loop.simps) simp
    next
      case False
      define r1 where "r1 = remaining - focus_len"
      define b where "b = min short_break r1"
      have r1: "0 < r1" using False by (simp add: r1_def)
      have b: "0 < b" "b \<le> r1" using r1 s by (simp_all add: b_def)
      have "nat (r1 - b) < nat remaining" "0 \<le> r1 - b"
        using b f r1 by (simp_all add: r1_def)
      from less.hyps [OF this, of "(plan @ [(focus_len, ''study'')]) @ [(b, ''break'')]"]
      obtain ss where ss:
        "split_loop focus_len short_break ((plan @ [(focus_len, ''study'')]) @ [(b, ''break'')]) (r1 - b) =
           Some (((plan @ [(focus_len, ''study'')]) @ [(b, ''break'')]) @ ss)"
        "sum_list (map fst ss) = r1 - b"
        by blast
      have "split_loop focus_len short_break plan remaining =
              Some (plan @ ((focus_len, ''study'') # (b, ''break'') # ss))"
        using pos False r1 ss(1) by (subst split_loop.simps) (simp add: Let_def r1_def b_def)
      moreover have "sum_list (map fst ((focus_len, ''study'') # (b, ''break'') # ss)) = remaining"
        using ss(2) by (simp add: r1_def)
      ultimately show ?thesis by blast
    qed
  qed
qed

text \<open>
  C2, as stated: \<^verbatim>\<open>split_into_sessions(120, focus_len=50, short_break=10)\<close> returns
  (50, study), (10, break), (50, study), (10, break), (10, study). The code does not: the
  list it returns has four entries.
\<close>

theorem split_120_50_10_counterexample:
  "split_into_sessions 120 50 10 \<noteq>
     Some [(50, ''study''), (10, ''break''), (50, ''study''), (10, ''break''), (10, ''study'')]"
  by (simp add: split_into_sessions_def split_loop.simps)

text \<open>
  C2, amended: \<^verbatim>\<open>split_into_sessions(120, focus_len=50, short_break=10)\<close> returns
  exactly (50, study), (10, break), (50, study), (10, break). The second break takes the
  last ten minutes of the allocation, so no study block of 10 follows it.
\<close>

theorem split_120_50_10:
  "split_into_sessions 120 50 10 =
     Some [(50, ''study''), (10, ''break''), (50, ''study''), (10, ''break'')]"
  by (simp add: split_into_sessions_def split_loop.simps)

text \<open>
  C5. For \<open>minutes > 0\<close>, \<open>focus_len > 0\<close> and \<open>short_break > 0\<close> the segmenter
  returns, and the durations of all the blocks it returns, study and break together, sum
  to \<open>minutes\<close>: the short breaks are taken out of the allocation.
\<close>

theorem split_sums_to_minutes:
  "0 < minutes \<Longrightarrow> 0 < focus_len \<Longrightarrow> 0 < short_break \<Longrightarrow>
     \<exists>plan. split_into_sessions minutes focus_len short_break = Some plan \<and>
            sum_list (map fst plan) = minutes"
  using split_loop_total [of focus_len short_break minutes "[]"]
  by (simp add: split_into_sessions_def)

theorem split_sums_to_minutes_witness:
  "(0::int) < 120 \<and> (0::int) < 50 \<and> (0::int) < 10 \<and>
   (\<exists>plan. split_into_sessions 120 50 10 = Some plan \<and> sum_list (map fst plan) = 120)"
  using split_sums_to_minutes [of 120 50 10] by simp

subsection \<open>Weight normalizer\<close>

lemma normalize_weights_zero_sum:
  "np_sum (map snd priorities) = Finite 0 \<Longrightarrow>
     normalize_weights np_sum priorities =
       map (\<lambda>k. (k, fdiv (Finite 1) (round_double (of_nat (length priorities)))))
         (map fst priorities)"
  by (simp add: normalize_weights_def)

lemma first_plus_rest_sum:
  "fadd (Finite 1) (seq_sum [Finite (10 ^ 16), Finite 1, Finite (- (10 ^ 16 + 2))]) = Finite (- 1)"
  by code_simp

text \<open>
  C8, as stated: for every non-empty priority map whose weights sum to exactly zero,
  \<open>normalize_weights\<close> gives each of the \<open>n\<close> subjects the weight \<open>1/n\<close>. The weights
  1, \<open>10^16\<close>, 1 and \<open>- (10^16 + 2)\<close> are doubles and sum to exactly zero, but added as
  doubles from left to right they give \<open>- 2\<close>: \<open>1 + 10^16\<close> and \<open>10^16 + 1\<close> round to
  \<open>10^16\<close>. The code divides by \<open>- 2\<close>, and no subject gets \<open>1/4\<close>. (Added as the first
  element plus the sum of the others the sum is \<open>- 1\<close>, not zero either.)
\<close>

theorem normalize_weights_uniform_counterexample:
  "[(''A'', Finite 1), (''B'', Finite (10 ^ 16)), (''C'', Finite 1),
    (''D'', Finite (- (10 ^ 16 + 2)))] \<noteq> [] \<and>
   (1 + 10 ^ 16 + 1 + - (10 ^ 16 + 2) :: rat) = 0 \<and>
   normalize_weights seq_sum
     [(''A'', Finite 1), (''B'', Finite (10 ^ 16)), (''C'', Finite 1),
      (''D'', Finite (- (10 ^ 16 + 2)))] =
     [(''A'', Finite (- 1 / 2)), (''B'', Finite (- 5000000000000000)), (''C'', Finite (- 1 / 2)),
      (''D'', Finite 5000000000000001)] \<and>
   fdiv (Finite 1) (round_double (of_nat 4)) = Finite (1 / 4)"
  by code_simp

text \<open>
  C8, amended: for every non-empty priority map whose sum as computed by \<^verbatim>\<open>arr.sum()\<close>,
  in double arithmetic, is zero, \<open>normalize_weights\<close> keeps the subjects and gives each of
  the \<open>n\<close> subjects the double \<^verbatim>\<open>1.0/n\<close>, the double nearest to \<open>1/n\<close>. This holds for
  every order in which the sum may add the elements.
\<close>

theorem normalize_weights_uniform:
  assumes "priorities \<noteq> []" and "np_sum (map snd priorities) = Finite 0"
  shows "map fst (normalize_weights np_sum priorities) = map fst priorities \<and>
         (\<forall>p \<in> set (normalize_weights np_sum priorities).
            snd p = fdiv (Finite 1) (round_double (of_nat (length priorities))))"
  using assms(2) by (auto simp: normalize_weights_zero_sum comp_def)

theorem normalize_weights_uniform_witness:
  "[(''Math'', Finite 0), (''Python'', Finite 0), (''AI'', Finite 0)] \<noteq> [] \<and>
   seq_sum (map snd [(''Math'', Finite 0), (''Python'', Finite 0), (''AI'', Finite 0)]) = Finite 0 \<and>
   map fst (normalize_weights seq_sum [(''Math'', Finite 0), (''Python'', Finite 0), (''AI'', Finite 0)]) =
     [''Math'', ''Python'', ''AI''] \<and>
   fdiv (Finite 1) (round_double (of_nat 3)) = Finite (6004799503160661 / 18014398509481984) \<and>
   list_all (\<lambda>p. snd p = Finite (6004799503160661 / 18014398509481984))
     (normalize_weights seq_sum [(''Math'', Finite 0), (''Python'', Finite 0), (''AI'', Finite 0)])"
proof -
  have s: "seq_sum (map snd [(''Math'', Finite 0), (''Python'', Finite 0), (''AI'', Finite 0)]) = Finite 0"
    by code_simp
  have d: "fdiv (Finite 1) (round_double (of_nat (length
      [(''Math'', Finite 0), (''Python'', Finite 0), (''AI'', Finite 0)]))) =
    Finite (6004799503160661 / 18014398509481984)"
    by code_simp
  have d': "fdiv (Finite 1) (round_double (of_nat 3)) = Finite (6004799503160661 / 18014398509481984)"
    by code_simp
  from normalize_weights_uniform [where np_sum = seq_sum
      and priorities = "[(''Math'', Finite 0), (''Python'', Finite 0), (''AI'', Finite 0)]"]
    s d d' show ?thesis
    by (simp add: list_all_iff)
qed

subsection \<open>Schedule assembler\<close>

lemma timed_chain_append:
  "timed_chain t (xs @ ys) t' = (\<exists>m. timed_chain t xs m \<and> timed_chain m ys t')"
  by (induction xs arbitrary: t) auto

lemma timed_chain_nth:
  "timed_chain t rows t' \<Longrightarrow> Suc i < length rows \<Longrightarrow>
     row_start (rows ! Suc i) = row_end (rows ! i)"
proof (induction rows arbitrary: t i)
  case Nil
  then show ?case by simp
next
  case (Cons r rs)
  show ?case
  proof (cases i)
    case 0
    with Cons.prems show ?thesis by (cases rs) auto
  next
    case (Suc j)
    with Cons.prems Cons.IH [of "t + duration_min r" j] show ?thesis by simp
  qed
qed

lemma timed_chain_first:
  "timed_chain t rows t' \<Longrightarrow> rows \<noteq> [] \<Longrightarrow> row_start (rows ! 0) = strftime_HM t"
  by (cases rows) auto

lemma study_count_append: "study_count (xs @ ys) = study_count xs + study_count ys"
  by (simp add: study_count_def)

lemma followed_append:
  "followed_by_long_break len xs \<Longrightarrow> followed_by_long_break len (xs @ ys)"
  by (cases xs) auto

lemma long_breaks_ok_append:
  "long_breaks_ok every len n xs \<Longrightarrow> long_breaks_ok every len (n + int (study_count xs)) ys \<Longrightarrow>
     long_breaks_ok every len n (xs @ ys)"
proof (induction xs arbitrary: n)
  case Nil
  then show ?case by (simp add: study_count_def)
next
  case (Cons r rs)
  show ?case
  proof (cases "is_study r")
    case True
    with Cons.prems have "long_breaks_ok every len (n + 1) rs"
      "long_breaks_ok every len (n + 1 + int (study_count rs)) ys"
      by (simp_all add: study_count_def add.assoc)
    then have "long_breaks_ok every len (n + 1) (rs @ ys)" by (rule Cons.IH)
    with True Cons.prems(1) show ?thesis by (auto intro: followed_append)
  next
    case False
    with Cons.prems have "long_breaks_ok every len n rs"
      "long_breaks_ok every len (n + int (study_count rs)) ys"
      by (simp_all add: study_count_def)
    then have "long_breaks_ok every len n (rs @ ys)" by (rule Cons.IH)
    with False show ?thesis by simp
  qed
qed

lemma long_breaks_ok_nth:
  "long_breaks_ok every len n rows \<Longrightarrow> i < length rows \<Longrightarrow> is_study (rows ! i) \<Longrightarrow>
   every dvd n + int (study_count (take (Suc i) rows)) \<Longrightarrow>
     followed_by_long_break len (drop (Suc i) rows)"
proof (induction rows arbitrary: n i)
  case Nil
  then show ?case by simp
next
  case (Cons r rs)
  show ?case
  proof (cases i)
    case 0
    with Cons.prems show ?thesis by (simp add: study_count_def split: if_splits)
  next
    case (Suc j)
    show ?thesis
    proof (cases "is_study r")
      case True
      with Cons.prems Suc have "long_breaks_ok every len (n + 1) rs" "j < length rs"
        "is_study (rs ! j)" "every dvd (n + 1) + int (study_count (take (Suc j) rs))"
        by (simp_all add: study_count_def add.assoc)
      from Cons.IH [OF this] Suc show ?thesis by simp
    next
      case False
      with Cons.prems Suc have "long_breaks_ok every len n rs" "j < length rs"
        "is_study (rs ! j)" "every dvd n + int (study_count (take (Suc j) rs))"
        by (simp_all add: study_count_def)
      from Cons.IH [OF this] Suc show ?thesis by simp
    qed
  qed
qed

lemma followed_by_long_break_drop:
  "followed_by_long_break len (drop (Suc i) rows) \<Longrightarrow>
     Suc i < length rows \<and> row_type (rows ! Suc i) = ''break'' \<and>
     duration_min (rows ! Suc i) = len \<and> subject (rows ! Suc i) = ''''"
proof -
  assume a: "followed_by_long_break len (drop (Suc i) rows)"
  then have "drop (Suc i) rows \<noteq> []" by auto
  then have l: "Suc i < length rows" by simp
  then have "drop (Suc i) rows = rows ! Suc i # drop (Suc (Suc i)) rows"
    by (simp add: Cons_nth_drop_Suc)
  with a l show ?thesis by simp
qed

lemma add_minutes_Inr: "add_minutes cur dur = Inr t \<Longrightarrow> t = cur + dur"
  by (simp add: add_minutes_def split: if_splits)

lemma session_loop_rows:
  "session_loop every len subj sessions (rows, cur, c) = Inr (rows', cur', c') \<Longrightarrow>
     \<exists>new. rows' = rows @ new \<and> timed_chain cur new cur' \<and>
           c' = c + int (study_count new) \<and> long_breaks_ok every len c new"
proof (induction sessions arbitrary: rows cur c)
  case Nil
  then show ?case by (simp add: study_count_def)
next
  case (Cons s sessions)
  obtain dur kind where s: "s = (dur, kind)" by (cases s)
  from Cons.prems s obtain end_t where e: "add_minutes cur dur = Inr end_t"
    by (auto split: sum.splits)
  then have end_t: "end_t = cur + dur" by (rule add_minutes_Inr)
  define r where "r = \<lparr>row_start = strftime_HM cur, row_end = strftime_HM end_t,
    duration_min = dur, row_type = kind, subject = (if kind = ''study'' then subj else '''')\<rparr>"
  show ?case
  proof (cases "kind = ''study''")
    case False
    with Cons.prems s e have
      "session_loop every len subj sessions (rows @ [r], end_t, c) = Inr (rows', cur', c')"
      by (simp add: r_def Let_def)
    from Cons.IH [OF this] obtain new where new: "rows' = (rows @ [r]) @ new"
      "timed_chain end_t new cur'" "c' = c + int (study_count new)"
      "long_breaks_ok every len c new"
      by blast
    have "\<not> is_study r" using False by (simp add: r_def is_study_def)
    with new have "rows' = rows @ (r # new) \<and> timed_chain cur (r # new) cur' \<and>
      c' = c + int (study_count (r # new)) \<and> long_breaks_ok every len c (r # new)"
      by (simp add: study_count_def) (simp add: r_def end_t)
    then show ?thesis by blast
  next
    case study: True
    then have st: "is_study r" by (simp add: r_def is_study_def)
    from Cons.prems s e study have nz: "every \<noteq> 0"
      by (auto simp: Let_def split: if_splits)
    show ?thesis
    proof (cases "(c + 1) mod every = 0")
      case False
      with Cons.prems s e study nz have
        "session_loop every len subj sessions (rows @ [r], end_t, c + 1) = Inr (rows', cur', c')"
        by (simp add: r_def Let_def)
      from Cons.IH [OF this] obtain new where new: "rows' = (rows @ [r]) @ new"
        "timed_chain end_t new cur'" "c' = c + 1 + int (study_count new)"
        "long_breaks_ok every len (c + 1) new"
        by blast
      have "\<not> every dvd c + 1" using False by (simp add: dvd_eq_mod_eq_0)
      with new st have "rows' = rows @ (r # new) \<and>
        timed_chain cur (r # new) cur' \<and>
        c' = c + int (study_count (r # new)) \<and> long_breaks_ok every len c (r # new)"
        by (simp add: study_count_def) (simp add: r_def end_t)
      then show ?thesis by blast
    next
      case True
      from Cons.prems s e study nz True obtain l_end where
        l: "add_minutes end_t len = Inr l_end"
        by (auto simp: Let_def split: sum.splits)
      then have l_end: "l_end = end_t + len" by (rule add_minutes_Inr)
      define b where "b = \<lparr>row_start = strftime_HM end_t, row_end = strftime_HM l_end,
        duration_min = len, row_type = ''break'', subject = ''''\<rparr>"
      from Cons.prems s e study nz True l have
        "session_loop every len subj sessions ((rows @ [r]) @ [b], l_end, c + 1) = Inr (rows', cur', c')"
        by (simp add: r_def b_def Let_def)
      from Cons.IH [OF this] obtain new where new: "rows' = ((rows @ [r]) @ [b]) @ new"
        "timed_chain l_end new cur'" "c' = c + 1 + int (study_count new)"
        "long_breaks_ok every len (c + 1) new"
        by blast
      have nb: "\<not> is_study b" by (simp add: b_def is_study_def)
      have fb: "followed_by_long_break len (b # new)" by (simp add: b_def)
      have "rows' = rows @ (r # b # new)" using new(1) by simp
      moreover have "timed_chain cur (r # b # new) cur'"
        using new(2) by (simp add: r_def b_def end_t l_end)
      moreover have "c' = c + int (study_count (r # b # new))"
        using new(3) st nb by (simp add: study_count_def)
      moreover have "long_breaks_ok every len c (r # b # new)"
        using new(4) st nb fb by simp
      ultimately show ?thesis by blast
    qed
  qed
qed

lemma subject_loop_rows:
  "subject_loop per_subject focus_len short_break every len subjects (rows, cur, c) =
      Some (Inr (rows', cur', c')) \<Longrightarrow>
     \<exists>new. rows' = rows @ new \<and> timed_chain cur new cur' \<and>
           c' = c + int (study_count new) \<and> long_breaks_ok every len c new"
proof (induction subjects arbitrary: rows cur c)
  case Nil
  then show ?case by (simp add: study_count_def)
next
  case (Cons subj subjects)
  from Cons.prems obtain minutes sessions rows1 cur1 c1 where
    "map_of per_subject subj = Some minutes"
    "split_into_sessions minutes focus_len short_break = Some sessions"
    and inner: "session_loop every len subj sessions (rows, cur, c) = Inr (rows1, cur1, c1)"
    and rest: "subject_loop per_subject focus_len short_break every len subjects (rows1, cur1, c1) =
      Some (Inr (rows', cur', c'))"
    by (auto split: option.splits sum.splits)
  from session_loop_rows [OF inner] obtain new1 where new1: "rows1 = rows @ new1"
    "timed_chain cur new1 cur1" "c1 = c + int (study_count new1)"
    "long_breaks_ok every len c new1"
    by blast
  from Cons.IH [OF rest] obtain new2 where new2: "rows' = rows1 @ new2"
    "timed_chain cur1 new2 cur'" "c' = c1 + int (study_count new2)"
    "long_breaks_ok every len c1 new2"
    by blast
  have "rows' = rows @ (new1 @ new2)" using new1(1) new2(1) by simp
  moreover have "timed_chain cur (new1 @ new2) cur'"
    using new1(2) new2(2) by (auto simp: timed_chain_append)
  moreover have "c' = c + int (study_count (new1 @ new2))"
    using new1(3) new2(3) by (simp add: study_count_append)
  moreover have "long_breaks_ok every len c (new1 @ new2)"
    using new1(3,4) new2(4) by (auto intro: long_breaks_ok_append)
  ultimately show ?case by blast
qed

lemma build_schedule_rows:
  assumes "build_schedule np_sum subjects priorities total_minutes start_time now focus_len short_break
    long_break_every long_break_len = Some (Inr rows)"
  shows "\<exists>cur'. timed_chain (case start_time of None \<Rightarrow> now | Some t \<Rightarrow> t) rows cur' \<and>
         long_breaks_ok long_break_every long_break_len 0 rows"
proof -
  from assms obtain per_subject cur' c' where
    "subject_loop per_subject focus_len short_break long_break_every long_break_len subjects
       ([], case start_time of None \<Rightarrow> now | Some t \<Rightarrow> t, 0) = Some (Inr (rows, cur', c'))"
    by (auto simp: build_schedule_def Let_def split: option.splits sum.splits prod.splits)
  from subject_loop_rows [OF this] show ?thesis by auto
qed

lemma two_sessions_plan:
  "build_schedule seq_sum [''Math''] [(''Math'', Finite 1)] 100 (Some 540) 0 45 10 2 20 =
   Some (Inr
     [\<lparr>row_start = ''09:00'', row_end = ''09:45'', duration_min = 45, row_type = ''study'',
        subject = ''Math''\<rparr>,
      \<lparr>row_start = ''09:45'', row_end = ''09:55'', duration_min = 10, row_type = ''break'',
        subject = ''''\<rparr>,
      \<lparr>row_start = ''09:55'', row_end = ''10:40'', duration_min = 45, row_type = ''study'',
        subject = ''Math''\<rparr>,
      \<lparr>row_start = ''10:40'', row_end = ''11:00'', duration_min = 20, row_type = ''break'',
        subject = ''''\<rparr>])"
  by code_simp

text \<open>
  C6. In every plan that \<open>build_schedule\<close> returns, each block starts where the block
  before it ends, and the first block starts at \<open>start_time\<close> (at \<open>now\<close> when no start
  time is given). The times of the rows are the \<^verbatim>\<open>%H:%M\<close> forms of instants that follow
  one another: each block ends \<open>duration_min\<close> minutes after it starts and the next block
  starts at that instant.
\<close>

theorem build_schedule_contiguous:
  assumes "build_schedule np_sum subjects priorities total_minutes start_time now focus_len short_break
    long_break_every long_break_len = Some (Inr rows)"
    and "start = (case start_time of None \<Rightarrow> now | Some t \<Rightarrow> t)"
  shows "(\<forall>i. Suc i < length rows \<longrightarrow> row_start (rows ! Suc i) = row_end (rows ! i)) \<and>
         (rows \<noteq> [] \<longrightarrow> row_start (rows ! 0) = strftime_HM start) \<and>
         (\<exists>t'. timed_chain start rows t')"
  using build_schedule_rows [OF assms(1)] assms(2)
  by (auto dest: timed_chain_nth timed_chain_first)

theorem build_schedule_contiguous_witness:
  "\<exists>rows. build_schedule seq_sum [''Math''] [(''Math'', Finite 1)] 100 (Some 540) 0 45 10 2 20 = Some (Inr rows) \<and>
     (540::int) = (case Some 540 of None \<Rightarrow> 0 | Some t \<Rightarrow> t) \<and> length rows = 4 \<and>
     (\<forall>i. Suc i < length rows \<longrightarrow> row_start (rows ! Suc i) = row_end (rows ! i)) \<and>
     (rows \<noteq> [] \<longrightarrow> row_start (rows ! 0) = ''09:00'') \<and>
     (\<exists>t'. timed_chain 540 rows t')"
proof -
  let ?rows = "[\<lparr>row_start = ''09:00'', row_end = ''09:45'', duration_min = 45, row_type = ''study'',
        subject = ''Math''\<rparr>,
      \<lparr>row_start = ''09:45'', row_end = ''09:55'', duration_min = 10, row_type = ''break'',
        subject = ''''\<rparr>,
      \<lparr>row_start = ''09:55'', row_end = ''10:40'', duration_min = 45, row_type = ''study'',
        subject = ''Math''\<rparr>,
      \<lparr>row_start = ''10:40'', row_end = ''11:00'', duration_min = 20, row_type = ''break'',
        subject = ''''\<rparr>]"
  have s: "(540::int) = (case Some 540 of None \<Rightarrow> 0 | Some t \<Rightarrow> t)" by simp
  have t: "strftime_HM 540 = ''09:00''" by code_simp
  have l: "length ?rows = 4" by simp
  have "(\<forall>i. Suc i < length ?rows \<longrightarrow> row_start (?rows ! Suc i) = row_end (?rows ! i)) \<and>
        (?rows \<noteq> [] \<longrightarrow> row_start (?rows ! 0) = strftime_HM 540) \<and>
        (\<exists>t'. timed_chain 540 ?rows t')"
    by (rule build_schedule_contiguous [OF two_sessions_plan s])
  then have "(\<forall>i. Suc i < length ?rows \<longrightarrow> row_start (?rows ! Suc i) = row_end (?rows ! i)) \<and>
        (?rows \<noteq> [] \<longrightarrow> row_start (?rows ! 0) = ''09:00'') \<and>
        (\<exists>t'. timed_chain 540 ?rows t')"
    unfolding t .
  with two_sessions_plan s l show ?thesis by blast
qed

text \<open>
  C7. In every plan that \<open>build_schedule\<close> returns, count the study blocks from the
  first row on, across all subjects, break blocks not counted: every study block whose
  count is a multiple of \<open>long_break_every\<close> is immediately followed by a break block of
  duration \<open>long_break_len\<close>.
\<close>

theorem build_schedule_long_breaks:
  assumes "build_schedule np_sum subjects priorities total_minutes start_time now focus_len short_break
    long_break_every long_break_len = Some (Inr rows)"
    and "i < length rows" and "row_type (rows ! i) = ''study''"
    and "long_break_every dvd int (study_count (take (Suc i) rows))"
  shows "Suc i < length rows \<and> row_type (rows ! Suc i) = ''break'' \<and>
         duration_min (rows ! Suc i) = long_break_len \<and> subject (rows ! Suc i) = ''''"
proof -
  from build_schedule_rows [OF assms(1)]
  have "long_breaks_ok long_break_every long_break_len 0 rows" by blast
  from long_breaks_ok_nth [OF this assms(2)] assms(3,4)
  have "followed_by_long_break long_break_len (drop (Suc i) rows)"
    by (simp add: is_study_def)
  then show ?thesis by (rule followed_by_long_break_drop)
qed

theorem build_schedule_long_breaks_witness:
  "\<exists>rows. build_schedule seq_sum [''Math''] [(''Math'', Finite 1)] 100 (Some 540) 0 45 10 2 20 = Some (Inr rows) \<and>
     2 < length rows \<and> row_type (rows ! 2) = ''study'' \<and>
     (2::int) dvd int (study_count (take (Suc 2) rows)) \<and>
     Suc 2 < length rows \<and> row_type (rows ! Suc 2) = ''break'' \<and>
     duration_min (rows ! Suc 2) = 20 \<and> subject (rows ! Suc 2) = ''''"
proof -
  let ?rows = "[\<lparr>row_start = ''09:00'', row_end = ''09:45'', duration_min = 45, row_type = ''study'',
        subject = ''Math''\<rparr>,
      \<lparr>row_start = ''09:45'', row_end = ''09:55'', duration_min = 10, row_type = ''break'',
        subject = ''''\<rparr>,
      \<lparr>row_start = ''09:55'', row_end = ''10:40'', duration_min = 45, row_type = ''study'',
        subject = ''Math''\<rparr>,
      \<lparr>row_start = ''10:40'', row_end = ''11:00'', duration_min = 20, row_type = ''break'',
        subject = ''''\<rparr>]"
  have h: "2 < length ?rows" "row_type (?rows ! 2) = ''study''"
    "(2::int) dvd int (study_count (take (Suc 2) ?rows))"
    by (simp_all add: study_count_def is_study_def)
  from build_schedule_long_breaks [OF two_sessions_plan h] h show ?thesis
    unfolding two_sessions_plan by blast
qed

lemma example_weights:
  "normalize_weights seq_sum [(''Math'', Finite 3), (''Python'', Finite 2), (''AI'', Finite 4)] =
     [(''Math'', Finite (6004799503160661 / 18014398509481984)),
      (''Python'', Finite (2001599834386887 / 9007199254740992)),
      (''AI'', Finite (2001599834386887 / 4503599627370496))]"
  "seq_sum [Finite 3, Finite 2, Finite 4] = Finite 9"
  "fadd (Finite 3) (seq_sum [Finite 2, Finite 4]) = Finite 9"
  by code_simp+

lemma example_allocation:
  "distribute_time 180
     (normalize_weights seq_sum [(''Math'', Finite 3), (''Python'', Finite 2), (''AI'', Finite 4)]) 25 =
     Some (Inr [(''Math'', 60), (''Python'', 40), (''AI'', 80)])"
  by code_simp

lemma example_sessions:
  "split_into_sessions 60 45 10 = Some [(45, ''study''), (10, ''break''), (5, ''study'')]"
  "split_into_sessions 40 45 10 = Some [(40, ''study'')]"
  "split_into_sessions 80 45 10 = Some [(45, ''study''), (10, ''break''), (25, ''study'')]"
  by code_simp+

lemma example_loop:
  assumes "0 \<le> start" and "start + 200 < datetime_max"
  shows "subject_loop [(''Math'', 60), (''Python'', 40), (''AI'', 80)] 45 10 3 20
           [''Math'', ''Python'', ''AI''] ([], start, 0) =
         Some (Inr
           ([\<lparr>row_start = strftime_HM start, row_end = strftime_HM (start + 45),
               duration_min = 45, row_type = ''study'', subject = ''Math''\<rparr>,
             \<lparr>row_start = strftime_HM (start + 45), row_end = strftime_HM (start + 55),
               duration_min = 10, row_type = ''break'', subject = ''''\<rparr>,
             \<lparr>row_start = strftime_HM (start + 55), row_end = strftime_HM (start + 60),
               duration_min = 5, row_type = ''study'', subject = ''Math''\<rparr>,
             \<lparr>row_start = strftime_HM (start + 60), row_end = strftime_HM (start + 100),
               duration_min = 40, row_type = ''study'', subject = ''Python''\<rparr>,
             \<lparr>row_start = strftime_HM (start + 100), row_end = strftime_HM (start + 120),
               duration_min = 20, row_type = ''break'', subject = ''''\<rparr>,
             \<lparr>row_start = strftime_HM (start + 120), row_end = strftime_HM (start + 165),
               duration_min = 45, row_type = ''study'', subject = ''AI''\<rparr>,
             \<lparr>row_start = strftime_HM (start + 165), row_end = strftime_HM (start + 175),
               duration_min = 10, row_type = ''break'', subject = ''''\<rparr>,
             \<lparr>row_start = strftime_HM (start + 175), row_end = strftime_HM (start + 200),
               duration_min = 25, row_type = ''study'', subject = ''AI''\<rparr>],
            start + 200, 5))"
proof -
  have lt: "start + 45 < datetime_max" "start + 55 < datetime_max" "start + 60 < datetime_max"
    "start + 100 < datetime_max" "start + 120 < datetime_max" "start + 165 < datetime_max"
    "start + 175 < datetime_max"
    using assms(2) by simp_all
  show ?thesis
    using assms lt by (simp add: example_sessions add_minutes_def Let_def ac_simps)
qed

text \<open>
  C1, as stated: for subjects Math, Python, AI with priorities 3, 2, 4, 180 minutes and
  the default parameters, the durations of the study blocks of the plan sum to 180. They
  do not: started at 09:00, the plan has study blocks of 45, 5, 40, 45 and 25 minutes.
\<close>

theorem example_plan_study_minutes_counterexample:
  "build_schedule seq_sum [''Math'', ''Python'', ''AI'']
      [(''Math'', Finite 3), (''Python'', Finite 2), (''AI'', Finite 4)] 180
      (Some 540) 0 45 10 3 20 =
   Some (Inr
     [\<lparr>row_start = ''09:00'', row_end = ''09:45'', duration_min = 45, row_type = ''study'',
        subject = ''Math''\<rparr>,
      \<lparr>row_start = ''09:45'', row_end = ''09:55'', duration_min = 10, row_type = ''break'',
        subject = ''''\<rparr>,
      \<lparr>row_start = ''09:55'', row_end = ''10:00'', duration_min = 5, row_type = ''study'',
        subject = ''Math''\<rparr>,
      \<lparr>row_start = ''10:00'', row_end = ''10:40'', duration_min = 40, row_type = ''study'',
        subject = ''Python''\<rparr>,
      \<lparr>row_start = ''10:40'', row_end = ''11:00'', duration_min = 20, row_type = ''break'',
        subject = ''''\<rparr>,
      \<lparr>row_start = ''11:00'', row_end = ''11:45'', duration_min = 45, row_type = ''study'',
        subject = ''AI''\<rparr>,
      \<lparr>row_start = ''11:45'', row_end = ''11:55'', duration_min = 10, row_type = ''break'',
        subject = ''''\<rparr>,
      \<lparr>row_start = ''11:55'', row_end = ''12:20'', duration_min = 25, row_type = ''study'',
        subject = ''AI''\<rparr>]) \<and>
   study_minutes
     [\<lparr>row_start = ''09:00'', row_end = ''09:45'', duration_min = 45, row_type = ''study'',
        subject = ''Math''\<rparr>,
      \<lparr>row_start = ''09:45'', row_end = ''09:55'', duration_min = 10, row_type = ''break'',
        subject = ''''\<rparr>,
      \<lparr>row_start = ''09:55'', row_end = ''10:00'', duration_min = 5, row_type = ''study'',
        subject = ''Math''\<rparr>,
      \<lparr>row_start = ''10:00'', row_end = ''10:40'', duration_min = 40, row_type = ''study'',
        subject = ''Python''\<rparr>,
      \<lparr>row_start = ''10:40'', row_end = ''11:00'', duration_min = 20, row_type = ''break'',
        subject = ''''\<rparr>,
      \<lparr>row_start = ''11:00'', row_end = ''11:45'', duration_min = 45, row_type = ''study'',
        subject = ''AI''\<rparr>,
      \<lparr>row_start = ''11:45'', row_end = ''11:55'', duration_min = 10, row_type = ''break'',
        subject = ''''\<rparr>,
      \<lparr>row_start = ''11:55'', row_end = ''12:20'', duration_min = 25, row_type = ''study'',
        subject = ''AI''\<rparr>] \<noteq> 180"
  by code_simp

text \<open>
  C1, amended: for subjects Math, Python, AI with priorities 3, 2, 4, 180 minutes and the
  default parameters, \<open>build_schedule\<close> returns a plan whose study blocks sum to 160
  minutes. The 180 minutes are these study blocks and two short breaks of 10 minutes; the
  long break of 20 minutes after the third study block comes on top, 200 minutes in all.
  This holds for every start time that leaves 200 minutes before the largest datetime.
  The weights are the doubles nearest to 3/9, 2/9 and 4/9 (the sum 9 is the same in every
  order of addition), and their products with 180 round to 60, 40 and 80.
\<close>

theorem example_plan_study_minutes:
  assumes "start = (case start_time of None \<Rightarrow> now | Some t \<Rightarrow> t)"
    and "0 \<le> start" and "start + 200 < datetime_max"
  shows "\<exists>rows.
    build_schedule seq_sum [''Math'', ''Python'', ''AI'']
      [(''Math'', Finite 3), (''Python'', Finite 2), (''AI'', Finite 4)] 180
      start_time now 45 10 3 20 = Some (Inr rows) \<and>
    map (\<lambda>r. (duration_min r, row_type r)) rows =
      [(45, ''study''), (10, ''break''), (5, ''study''), (40, ''study''), (20, ''break''),
       (45, ''study''), (10, ''break''), (25, ''study'')] \<and>
    study_minutes rows = 160 \<and> sum_list (map duration_min rows) = 180 + 20"
  using example_loop [OF assms(2,3)]
  by (simp add: build_schedule_def example_allocation assms(1) [symmetric]
      study_minutes_def is_study_def)

theorem example_plan_study_minutes_witness:
  "(540::int) = (case Some 540 of None \<Rightarrow> 0 | Some t \<Rightarrow> t) \<and> (0::int) \<le> 540 \<and>
   (540::int) + 200 < datetime_max \<and>
   (\<exists>rows.
    build_schedule seq_sum [''Math'', ''Python'', ''AI'']
      [(''Math'', Finite 3), (''Python'', Finite 2), (''AI'', Finite 4)] 180
      (Some 540) 0 45 10 3 20 = Some (Inr rows) \<and>
    map (\<lambda>r. (duration_min r, row_type r)) rows =
      [(45, ''study''), (10, ''break''), (5, ''study''), (40, ''study''), (20, ''break''),
       (45, ''study''), (10, ''break''), (25, ''study'')] \<and>
    study_minutes rows = 160 \<and> sum_list (map duration_min rows) = 180 + 20)"
  using example_plan_study_minutes [where start = 540 and start_time = "Some 540" and now = 0]
  by (simp add: datetime_max_def)

subsection \<open>Persisted plan\<close>

lemma load_memory_fallback:
  assumes "searchable p"
    and "content p = Absent \<or> content p = Unreadable \<or>
         (\<exists>txt e. content p = Text txt \<and> json_loads txt = Inl e)"
  shows "load_memory json_loads p = Inr (JObject [(''last_plan'', JArray [])])"
  using assms by (auto simp: load_memory_def path_exists_def read_text_def)

text \<open>
  C9. \<open>load_memory\<close> is to return \<^verbatim>\<open>{"last_plan": []}\<close>, and to raise nothing, whenever
  the memory file is absent or cannot be parsed. Where the path can be looked up it does
  (lemma \<open>load_memory_fallback\<close>). But \<^verbatim>\<open>MEMORY_PATH.exists()\<close> is called before the
  \<^verbatim>\<open>try\<close>: with no memory file and a directory that cannot be searched, \<^verbatim>\<open>exists\<close>
  raises \<^verbatim>\<open>PermissionError\<close> and \<open>load_memory\<close> lets it through, whatever
  \<^verbatim>\<open>json.loads\<close> does.
\<close>

theorem load_memory_stat_error:
  "load_memory json_loads \<lparr>searchable = False, content = Absent\<rparr> = Inl PermissionError"
  by (simp add: load_memory_def path_exists_def)

end
